theory Spec2Isabelle
  imports Main "HOL-Library.Multiset"
begin

section \<open>UML Studio: the diagram catalog, its grouping and its rendering lifecycle\<close>

text \<open>
  The development embeds \<^verbatim>\<open>src/App.tsx\<close>. JavaScript strings are modelled as
  \<^typ>\<open>string\<close>; the functions below only ever inspect the characters \<^verbatim>\<open>&\<close>,
  \<^verbatim>\<open><\<close>, \<^verbatim>\<open>>\<close> and the space, and copy every other character unchanged.
\<close>

subsection \<open>Data model\<close>

text \<open>\<^verbatim>\<open>interface Diagram { id; group; title; code }\<close>. The fields \<^verbatim>\<open>id\<close> and
  \<^verbatim>\<open>group\<close> carry a suffix, since HOL has constants of these names.\<close>

record Diagram =
  id_d :: string
  group_d :: string
  title :: string
  code :: string

subsection \<open>String helpers\<close>

text \<open>\<^verbatim>\<open>s.replace(/c/g, r)\<close> for a pattern that is one literal character and a
  replacement text without \<^verbatim>\<open>$\<close>: every occurrence of the character, left to right,
  is replaced by the text.\<close>

primrec replace_g :: "char \<Rightarrow> string \<Rightarrow> string \<Rightarrow> string" where
  "replace_g c r [] = []"
| "replace_g c r (x # xs) = (if x = c then r @ replace_g c r xs else x # replace_g c r xs)"

text \<open>The three chained replacements of the \<^verbatim>\<open>catch\<close> handler (lines 116 to 119), in
  the order of the source: first \<^verbatim>\<open>&\<close>, then \<^verbatim>\<open><\<close>, then \<^verbatim>\<open>>\<close>.\<close>

definition safeCode :: "string \<Rightarrow> string" where
  "safeCode c =
     replace_g (CHR ''>'') ''&gt;''
       (replace_g (CHR ''<'') ''&lt;''
         (replace_g (CHR ''&'') ''&amp;'' c))"

text \<open>What the specification asks of the escaping, character by character.\<close>

definition escape_char_spec :: "char \<Rightarrow> string" where
  "escape_char_spec x =
     (if x = CHR ''&'' then ''&amp;''
      else if x = CHR ''<'' then ''&lt;''
      else if x = CHR ''>'' then ''&gt;''
      else [x])"

definition escape_spec :: "string \<Rightarrow> string" where
  "escape_spec s = concat (map escape_char_spec s)"

text \<open>A decoder for the escaped text, used to show that nothing is lost.\<close>

fun unescape :: "string \<Rightarrow> string" where
  "unescape [] = []"
| "unescape (x # xs) =
     (if x = CHR ''&'' then
        (if take 4 xs = ''amp;'' then CHR ''&'' # unescape (drop 4 xs)
         else if take 3 xs = ''lt;'' then CHR ''<'' # unescape (drop 3 xs)
         else if take 3 xs = ''gt;'' then CHR ''>'' # unescape (drop 3 xs)
         else x # unescape xs)
      else x # unescape xs)"

subsection \<open>The sidebar's grouping\<close>

text \<open>A JavaScript \<^verbatim>\<open>Map\<close> keeps its entries in insertion order and holds each key
  once: an association list. \<^verbatim>\<open>m.set(k, v)\<close> overwrites the value of a key that is
  present, in place, and appends a new entry otherwise.\<close>

type_synonym ('k, 'v) js_map = "('k \<times> 'v) list"

definition Map_has :: "('k, 'v) js_map \<Rightarrow> 'k \<Rightarrow> bool" where
  "Map_has m k = (map_of m k \<noteq> None)"

definition Map_get :: "('k, 'v) js_map \<Rightarrow> 'k \<Rightarrow> 'v option" where
  "Map_get m k = map_of m k"

fun Map_set :: "'k \<Rightarrow> 'v \<Rightarrow> ('k, 'v) js_map \<Rightarrow> ('k, 'v) js_map" where
  "Map_set k v [] = [(k, v)]"
| "Map_set k v ((a, b) # m) = (if k = a then (a, v) # m else (a, b) # Map_set k v m)"

text \<open>\<^verbatim>\<open>m.get(k)?.push(d)\<close>: the array stored under the key is extended in place, so
  the entry of the map changes with it; nothing happens when the key is absent.\<close>

definition get_push :: "'k \<Rightarrow> 'a \<Rightarrow> ('k, 'a list) js_map \<Rightarrow> ('k, 'a list) js_map" where
  "get_push k d m = (case Map_get m k of None \<Rightarrow> m | Some ds \<Rightarrow> Map_set k (ds @ [d]) m)"

text \<open>The body of \<^verbatim>\<open>items.forEach\<close> (lines 142 to 145), and the whole memoised
  computation: \<^verbatim>\<open>Array.from(m.entries())\<close> is the association list itself.\<close>

definition group_step ::
  "(string, Diagram list) js_map \<Rightarrow> Diagram \<Rightarrow> (string, Diagram list) js_map" where
  "group_step m d =
     get_push (group_d d) d (if \<not> Map_has m (group_d d) then Map_set (group_d d) [] m else m)"

definition groups :: "Diagram list \<Rightarrow> (string \<times> Diagram list) list" where
  "groups items = foldl group_step [] items"

text \<open>The grouping as the specification words it: the labels in the order of their
  first occurrence, each with the entries that carry it, in catalog order.\<close>

primrec first_occurrences :: "'a list \<Rightarrow> 'a list" where
  "first_occurrences [] = []"
| "first_occurrences (x # xs) = x # removeAll x (first_occurrences xs)"

definition grouping_spec :: "Diagram list \<Rightarrow> (string \<times> Diagram list) list" where
  "grouping_spec items =
     map (\<lambda>g. (g, filter (\<lambda>d. group_d d = g) items)) (first_occurrences (map group_d items))"

subsection \<open>The catalog\<close>

text \<open>The array \<^verbatim>\<open>diagrams\<close> (lines 57 to 88), with the escape \<^verbatim>\<open>\n\<close> of the
  template literals written as the newline character and \<^verbatim>\<open>${CLASSDEF}\<close> as the
  constant it interpolates.\<close>

definition CLASSDEF :: string where
  \<open>CLASSDEF = ''classDef risk fill:#fff3cd,stroke:#f0ad4e,color:#8a6d3b;\<newline>''\<close>

definition OTO0 :: Diagram where
  \<open>OTO0 =
     \<lparr>id_d = ''OTO0'',
      group_d = ''Otomato Platform'',
      title = ''System Overview (Use-Case)'',
      code =
        ''flowchart LR\<newline>'' @
        ''  U([User])\<newline>'' @
        ''  D([Developer])\<newline>'' @
        ''  P([Partner Protocol])\<newline>'' @
        ''\<newline>'' @
        ''  subgraph Otomato[Otomato Automation Platform]\<newline>'' @
        ''    UC1((Create No-Code Agent))\<newline>'' @
        ''    UC2((Use Otomato SDK))\<newline>'' @
        ''    UC3((Integrate via API))\<newline>'' @
        ''    UC4((Monitor On-Chain Events))\<newline>'' @
        ''  end\<newline>'' @
        ''\<newline>'' @
        ''  U --> UC1\<newline>'' @
        ''  D --> UC2\<newline>'' @
        ''  P --> UC3\<newline>'' @
        ''  UC1 --> UC4\<newline>'' @
        ''  UC2 --> UC4''\<rparr>\<close>

definition OTO1 :: Diagram where
  \<open>OTO1 =
     \<lparr>id_d = ''OTO1'',
      group_d = ''Otomato Platform'',
      title = ''No-Code Automation Workflow (Flowchart)'',
      code =
        ''flowchart TD\<newline>'' @
        ''  '' @ CLASSDEF @
        ''  A[Start: User opens Automation Builder]\<newline>'' @
        ''  B{"Define Trigger<br/><i>e.g., Gas price < 10 Gwei</i>"}\<newline>'' @
        ''  C{"Define Action<br/><i>e.g., Swap ETH for TOKEN</i>"}\<newline>'' @
        ''  D[Save & Deploy Agent]\<newline>'' @
        ''  E((Otomato Engine Monitors Blockchain))\<newline>'' @
        ''  F{Condition Met?}\<newline>'' @
        ''  G[Execute Transaction via Smart Account]\<newline>'' @
        ''  H([End: Success])\<newline>'' @
        ''  I([End: Failed])\<newline>'' @
        ''\<newline>'' @
        ''  A --> B --> C --> D --> E --> F\<newline>'' @
        ''  F -- Yes --> G --> H\<newline>'' @
        ''  F -- No --> E\<newline>'' @
        ''  G -- Error --> I''\<rparr>\<close>

definition OTO2 :: Diagram where
  \<open>OTO2 =
     \<lparr>id_d = ''OTO2'',
      group_d = ''Otomato Platform'',
      title = ''Technology Ecosystem (Component View)'',
      code =
        ''flowchart TD\<newline>'' @
        ''  subgraph UserFacing[User-Facing Layer]\<newline>'' @
        ''    UI[No-Code Builder UI]\<newline>'' @
        ''    SDK[TypeScript SDK]\<newline>'' @
        ''  end\<newline>'' @
        ''\<newline>'' @
        ''  subgraph CoreEngine[Core Engine]\<newline>'' @
        ''    AE[Automation Engine]\<newline>'' @
        ''    SA["Smart Accounts<br/>(ERC-4337)"]\<newline>'' @
        ''  end\<newline>'' @
        ''\<newline>'' @
        ''  subgraph Integrations[Integrations & Infrastructure]\<newline>'' @
        ''    EVM["EVM Chains<br/>(Base, Ethereum, etc.)"]\<newline>'' @
        ''    DeFi["DeFi Protocols<br/>(Aave, Compound)"]\<newline>'' @
        ''    Privacy["Privacy Layer<br/>(iExec)"]\<newline>'' @
        ''  end\<newline>'' @
        ''\<newline>'' @
        ''  UI --> AE\<newline>'' @
        ''  SDK --> AE\<newline>'' @
        ''  AE --> SA\<newline>'' @
        ''  SA --> EVM\<newline>'' @
        ''  SA --> DeFi\<newline>'' @
        ''  AE --> Privacy''\<rparr>\<close>

definition OTO3 :: Diagram where
  \<open>OTO3 =
     \<lparr>id_d = ''OTO3'',
      group_d = ''Strategy & Growth'',
      title = ''Funding & Partnerships (Sequence)'',
      code =
        ''sequenceDiagram\<newline>'' @
        ''  autonumber\<newline>'' @
        ''  participant C as Coinsilium (Investor)\<newline>'' @
        ''  participant O as Otomato\<newline>'' @
        ''  participant I as iExec (Partner)\<newline>'' @
        ''  participant M as Mode Network\<newline>'' @
        ''\<newline>'' @
        ''  C->>O: Provide Strategic Funding (SAFT)\<newline>'' @
        ''  O-->>C: Grant % of future revenue & tokens\<newline>'' @
        ''  O->>I: Propose technical integration\<newline>'' @
        ''  I-->>O: Agree to provide privacy tools on Arbitrum\<newline>'' @
        ''  O->>M: Join Yield Accelerator Program\<newline>'' @
        ''  M-->>O: Provide ecosystem support & grant\<newline>'' @
        ''  O->>O: Develop platform using funds & tech''\<rparr>\<close>

definition OTO4 :: Diagram where
  \<open>OTO4 =
     \<lparr>id_d = ''OTO4'',
      group_d = ''Strategy & Growth'',
      title = ''Project Launch Roadmap (Flowchart)'',
      code =
        ''flowchart LR\<newline>'' @
        ''  '' @ CLASSDEF @
        ''  A[Q3 2024: Private Beta] --> B[Q4 2024: Public Launch]\<newline>'' @
        ''  B --> C["Q2 2025: Token Generation Event (TGE)"]\<newline>'' @
        ''  C --> D[Post-TGE: Exchange Listings & DAO Formation]\<newline>'' @
        ''\<newline>'' @
        ''  R1{{Tokenomics Not Public}}:::risk\<newline>'' @
        ''  C -.-> R1''\<rparr>\<close>

definition diagrams :: "Diagram list" where
  "diagrams = [OTO0, OTO1, OTO2, OTO3, OTO4]"

subsection \<open>Host environment: downloads, clipboard, timers\<close>

text \<open>What \<^verbatim>\<open>download\<close> hands to the browser: a Blob of the given type holding the
  text, saved under the name of the anchor's \<^verbatim>\<open>download\<close> attribute.\<close>

record File =
  filename :: string
  content :: string
  mime_type :: string

text \<open>The outcome of \<^verbatim>\<open>navigator.clipboard.writeText\<close>: the promise resolves, or
  rejects with an error (here its text).\<close>

datatype clipboard_result = Written | Rejected string

subsection \<open>The state of the page\<close>

text \<open>One run of the effect of \<^verbatim>\<open>MermaidRenderer\<close> (lines 99 to 127) leaves a closure
  behind: the \<^verbatim>\<open>code\<close> it was started with and its variable \<^verbatim>\<open>active\<close>, which
  the cleanup function of that run sets to false.\<close>

record Render =
  r_code :: string
  active :: bool

text \<open>
  The four state variables of \<^verbatim>\<open>App\<close> (lines 175 to 178), the \<^verbatim>\<open>div\<close> behind
  \<^verbatim>\<open>ref\<close>, and the environment the handlers act on.
  \<^item> \<open>ref\<close> is \<^verbatim>\<open>ref.current\<close>: \<open>None\<close> for \<^verbatim>\<open>null\<close> (the component is not
    mounted), otherwise the \<^verbatim>\<open>innerHTML\<close> of the element.
  \<^item> \<open>renders\<close> holds the closures whose engine promise has not settled yet, under the
    number of the effect run that created them; \<open>runs\<close> counts the runs and \<open>cur\<close> is
    the run whose cleanup function React holds.
  \<^item> \<open>mermaid_theme\<close> is the theme last given to \<^verbatim>\<open>mermaid.initialize\<close>, and
    \<open>render_calls\<close> logs every call of \<^verbatim>\<open>mermaid.render\<close>: the source text and
    the engine's theme at that moment.
  \<^item> \<open>onRender_calls\<close> logs the arguments the callback \<^verbatim>\<open>onRender\<close> was called with.
  \<^item> \<open>timers\<close> are the due times (in milliseconds) of the pending \<^verbatim>\<open>setTimeout\<close>
    callbacks, all of which are \<^verbatim>\<open>() => setCopyStatus("Copy Mermaid")\<close>; \<open>now\<close> is
    the clock.
\<close>

record App_state =
  selected :: Diagram
  svg :: string
  dark :: bool
  copyStatus :: string
  ref :: "string option"
  renders :: "nat \<rightharpoonup> Render"
  runs :: nat
  cur :: "nat option"
  mermaid_theme :: "string option"
  render_calls :: "(string \<times> string option) list"
  onRender_calls :: "string list"
  downloads :: "File list"
  clipboard :: string
  console :: "string list"
  timers :: "nat list"
  now :: nat

subsection \<open>The rendering adapter\<close>

definition spinner :: string where
  \<open>spinner = ''<div class="flex justify-center items-center h-64"><div class="animate-spin rounded-full h-16 w-16 border-t-2 border-b-2 border-gray-500"></div></div>''\<close>

definition panel_head :: string where
  \<open>panel_head = ''<pre class='' @ [CHR 0x27] @ ''text-red-500 whitespace-pre-wrap p-4 bg-red-50 dark:bg-red-900/20 rounded-lg'' @ [CHR 0x27] @ ''><strong>Mermaid Render Error:</strong><br/>''\<close>

definition panel_mid :: string where
  "panel_mid = ''<br/><br/><strong>Code:</strong><br/>''"

definition panel_tail :: string where
  "panel_tail = ''</pre>''"

text \<open>The template literal of line 120: \<^verbatim>\<open>String(err)\<close> is inserted as it is, the
  source text after the three replacements.\<close>

definition error_panel :: "string \<Rightarrow> string \<Rightarrow> string" where
  "error_panel err c = panel_head @ err @ panel_mid @ safeCode c @ panel_tail"

text \<open>\<^verbatim>\<open>initMermaid(dark)\<close>; of the configuration only the theme varies.\<close>

definition initMermaid :: "bool \<Rightarrow> App_state \<Rightarrow> App_state" where
  "initMermaid d w = w\<lparr>mermaid_theme := Some (if d then ''dark'' else ''default'')\<rparr>"

text \<open>The effect body, up to the call of \<^verbatim>\<open>window.mermaid.render\<close>: nothing happens
  (and no cleanup function is returned) when \<^verbatim>\<open>ref.current\<close> is null; otherwise the
  spinner replaces the content and a render is issued, whose closure starts active.\<close>

definition renderer_effect :: "string \<Rightarrow> App_state \<Rightarrow> App_state" where
  "renderer_effect c w =
     (case ref w of
        None \<Rightarrow> w\<lparr>cur := None\<rparr>
      | Some _ \<Rightarrow>
          w\<lparr>ref := Some spinner,
            renders := (renders w)(runs w \<mapsto> \<lparr>r_code = c, active = True\<rparr>),
            render_calls := render_calls w @ [(c, mermaid_theme w)],
            cur := Some (runs w),
            runs := Suc (runs w)\<rparr>)"

text \<open>The cleanup function \<^verbatim>\<open>() => { active = false; }\<close> of the run React holds.\<close>

definition renderer_cleanup :: "App_state \<Rightarrow> App_state" where
  "renderer_cleanup w =
     (case cur w of
        None \<Rightarrow> w
      | Some t \<Rightarrow>
          (case renders w t of
             None \<Rightarrow> w
           | Some r \<Rightarrow> w\<lparr>renders := (renders w)(t \<mapsto> r\<lparr>active := False\<rparr>)\<rparr>))"

text \<open>
  A new render pass of \<^verbatim>\<open>MermaidRenderer\<close> whose \<^verbatim>\<open>code\<close> prop goes from \<open>old\<close> to
  \<open>new\<close>. The dependency list is \<^verbatim>\<open>[code, onRender]\<close>; \<^verbatim>\<open>onRender\<close> is always the
  state setter \<^verbatim>\<open>setSvg\<close>, whose identity never changes, and React compares the two
  strings by value. So the effect runs again (after the cleanup of the previous run)
  exactly when the text differs.
\<close>

definition renderer_update :: "string \<Rightarrow> string \<Rightarrow> App_state \<Rightarrow> App_state" where
  "renderer_update old new w =
     (if new = old then w else renderer_effect new (renderer_cleanup w))"

text \<open>\<^verbatim>\<open>onRender\<close> is \<^verbatim>\<open>setSvg\<close> (line 240). The render pass of \<^verbatim>\<open>App\<close> that
  follows leaves the \<^verbatim>\<open>code\<close> prop as it is.\<close>

definition onRender :: "string \<Rightarrow> App_state \<Rightarrow> App_state" where
  "onRender v w = w\<lparr>svg := v, onRender_calls := onRender_calls w @ [v]\<rparr>"

text \<open>The \<^verbatim>\<open>then\<close> handler (lines 109 to 113) of the promise of run \<open>t\<close>, resolving
  with the text \<open>v\<close>. A promise settles once: the closure leaves \<open>renders\<close>.\<close>

definition resolve :: "nat \<Rightarrow> string \<Rightarrow> App_state \<Rightarrow> App_state" where
  "resolve t v w =
     (case renders w t of
        None \<Rightarrow> w
      | Some r \<Rightarrow>
          (let w1 = w\<lparr>renders := (renders w)(t := None)\<rparr> in
           if \<not> active r then w1
           else onRender v (case ref w1 of None \<Rightarrow> w1 | Some _ \<Rightarrow> w1\<lparr>ref := Some v\<rparr>)))"

text \<open>The \<^verbatim>\<open>catch\<close> handler (lines 114 to 122) of the promise of run \<open>t\<close>, rejecting
  with an error whose \<^verbatim>\<open>String(err)\<close> is \<open>e\<close>. It does not read \<^verbatim>\<open>active\<close>.\<close>

definition reject :: "nat \<Rightarrow> string \<Rightarrow> App_state \<Rightarrow> App_state" where
  "reject t e w =
     (case renders w t of
        None \<Rightarrow> w
      | Some r \<Rightarrow>
          (let w1 = w\<lparr>renders := (renders w)(t := None)\<rparr> in
           case ref w1 of
             None \<Rightarrow> w1
           | Some _ \<Rightarrow> w1\<lparr>ref := Some (error_panel e (r_code r))\<rparr>))"

subsection \<open>The shell\<close>

text \<open>\<^verbatim>\<open>setSelected(d)\<close> and the render pass it causes: \<^verbatim>\<open>MermaidRenderer\<close> receives
  \<^verbatim>\<open>selected.code\<close> of the new value, after that of the old one. (When React skips
  the pass because the very same object is stored again, the result is the same.)\<close>

definition setSelected :: "Diagram \<Rightarrow> App_state \<Rightarrow> App_state" where
  "setSelected d w = renderer_update (code (selected w)) (code d) (w\<lparr>selected := d\<rparr>)"

text \<open>The effect of \<^verbatim>\<open>App\<close> on \<^verbatim>\<open>[dark]\<close> (lines 180 to 185): the class toggle on
  the document has no part in the model; the engine is configured, and
  \<^verbatim>\<open>setSelected(prev => ({...prev}))\<close> stores a copy of the selected record.\<close>

definition theme_effect :: "App_state \<Rightarrow> App_state" where
  "theme_effect w = (let w1 = initMermaid (dark w) w in setSelected (selected w1) w1)"

text \<open>The theme button (line 206): \<^verbatim>\<open>setDark((v) => !v)\<close>. In the render pass that
  follows, the props of \<^verbatim>\<open>MermaidRenderer\<close> are unchanged; then the effect on
  \<^verbatim>\<open>[dark]\<close> runs.\<close>

definition toggleTheme :: "App_state \<Rightarrow> App_state" where
  "toggleTheme w =
     theme_effect (renderer_update (code (selected w)) (code (selected w)) (w\<lparr>dark := \<not> dark w\<rparr>))"

text \<open>\<^verbatim>\<open>copy\<close> (lines 31 to 39): true when the clipboard took the text, false after
  logging the error otherwise.\<close>

definition copy :: "string \<Rightarrow> clipboard_result \<Rightarrow> App_state \<Rightarrow> bool \<times> App_state" where
  "copy text res w =
     (case res of
        Written \<Rightarrow> (True, w\<lparr>clipboard := text\<rparr>)
      | Rejected e \<Rightarrow> (False, w\<lparr>console := console w @ [e]\<rparr>))"

text \<open>\<^verbatim>\<open>handleCopy\<close> (lines 187 to 194). \<^verbatim>\<open>setTimeout\<close> adds a timer; none is ever
  cleared.\<close>

definition handleCopy :: "clipboard_result \<Rightarrow> App_state \<Rightarrow> App_state" where
  "handleCopy res w =
     (case copy (code (selected w)) res w of
        (True, w1) \<Rightarrow> w1\<lparr>copyStatus := ''Copied!'', timers := timers w1 @ [now w1 + 2000]\<rparr>
      | (False, w1) \<Rightarrow> w1)"

text \<open>Time passes by \<open>dt\<close> milliseconds: every timer that is due by then fires and is
  gone; each of them sets the label back.\<close>

definition advance :: "nat \<Rightarrow> App_state \<Rightarrow> App_state" where
  "advance dt w =
     (let t = now w + dt in
      w\<lparr>now := t,
        timers := filter (\<lambda>due. t < due) (timers w),
        copyStatus := (if filter (\<lambda>due. due \<le> t) (timers w) = [] then copyStatus w
                       else ''Copy Mermaid'')\<rparr>)"

text \<open>\<^verbatim>\<open>download\<close> (lines 41 to 51).\<close>

definition download :: "string \<Rightarrow> string \<Rightarrow> App_state \<Rightarrow> App_state" where
  "download name v w =
     w\<lparr>downloads := downloads w @
        [\<lparr>filename = name @ ''.svg'', content = v, mime_type = ''image/svg+xml''\<rparr>]\<rparr>"

text \<open>The export button (lines 219 to 227): \<^verbatim>\<open>disabled={!svg}\<close>, and \<^verbatim>\<open>!svg\<close> is
  true exactly for the empty string; a disabled button does not run its handler.\<close>

definition exportClick :: "App_state \<Rightarrow> App_state" where
  "exportClick w =
     (if svg w = [] then w
      else download (replace_g (CHR '' '') ''_'' (title (selected w))) (svg w) w)"

text \<open>The state \<^verbatim>\<open>useState\<close> starts from, before anything is mounted.\<close>

definition initial :: App_state where
  "initial =
     \<lparr>selected = diagrams ! 0, svg = [], dark = False, copyStatus = ''Copy Mermaid'',
      ref = None, renders = Map.empty, runs = 0, cur = None, mermaid_theme = None,
      render_calls = [], onRender_calls = [], downloads = [], clipboard = [],
      console = [], timers = [], now = 0\<rparr>"

text \<open>Mounting: the \<^verbatim>\<open>div\<close> is attached, empty; React then runs the effects of the
  first pass, those of the child \<^verbatim>\<open>MermaidRenderer\<close> before those of \<^verbatim>\<open>App\<close>.\<close>

definition mount :: "App_state \<Rightarrow> App_state" where
  "mount w = theme_effect (renderer_effect (code (selected w)) (w\<lparr>ref := Some []\<rparr>))"

definition started :: App_state where
  "started = mount initial"

text \<open>Unmounting: the cleanup runs and React resets \<^verbatim>\<open>ref.current\<close> to null.\<close>

definition unmount :: "App_state \<Rightarrow> App_state" where
  "unmount w = (renderer_cleanup w)\<lparr>ref := None, cur := None\<rparr>"

subsection \<open>Events\<close>

text \<open>What can happen to a page: the user's clicks (only while it is mounted), the
  engine settling the promise of an effect run, time passing, and the page going away.\<close>

datatype event =
    Select Diagram
  | ToggleTheme
  | CopyClick clipboard_result
  | ExportClick
  | Resolve nat string
  | Reject nat string
  | Elapse nat
  | Unmount

fun step :: "App_state \<Rightarrow> event \<Rightarrow> App_state" where
  "step w (Select d) = (if ref w = None then w else setSelected d w)"
| "step w ToggleTheme = (if ref w = None then w else toggleTheme w)"
| "step w (CopyClick res) = (if ref w = None then w else handleCopy res w)"
| "step w ExportClick = (if ref w = None then w else exportClick w)"
| "step w (Resolve t v) = resolve t v w"
| "step w (Reject t e) = reject t e w"
| "step w (Elapse dt) = advance dt w"
| "step w Unmount = unmount w"

definition run :: "event list \<Rightarrow> App_state \<Rightarrow> App_state" where
  "run es w = foldl step w es"

text \<open>At most one closure is live: a closure whose \<^verbatim>\<open>active\<close> is still true
  belongs to the effect run whose cleanup function React holds.\<close>

definition one_live :: "App_state \<Rightarrow> bool" where
  "one_live w = (\<forall>t r. renders w t = Some r \<and> active r \<longrightarrow> cur w = Some t)"

section \<open>Properties of the string helpers\<close>

lemma replace_g_append: "replace_g c r (xs @ ys) = replace_g c r xs @ replace_g c r ys"
  by (induction xs) simp_all

lemma replace_g_concat: "replace_g c r s = concat (map (\<lambda>x. if x = c then r else [x]) s)"
  by (induction s) simp_all

lemma safeCode_Nil: "safeCode [] = []"
  by (simp add: safeCode_def)

lemma safeCode_Cons: "safeCode (x # xs) = escape_char_spec x @ safeCode xs"
  by (simp add: safeCode_def escape_char_spec_def replace_g_append)

lemma safeCode_escape_spec: "safeCode s = escape_spec s"
  by (induction s) (simp_all add: safeCode_Nil safeCode_Cons escape_spec_def)

lemma escape_char_spec_no_angle:
  "CHR ''<'' \<notin> set (escape_char_spec x) \<and> CHR ''>'' \<notin> set (escape_char_spec x)"
  by (simp add: escape_char_spec_def)

lemma safeCode_no_angle: "CHR ''<'' \<notin> set (safeCode s) \<and> CHR ''>'' \<notin> set (safeCode s)"
  using escape_char_spec_no_angle by (induction s) (simp_all add: safeCode_Nil safeCode_Cons)

lemma unescape_escape_char: "unescape (escape_char_spec x @ ys) = x # unescape ys"
  by (simp add: escape_char_spec_def)

lemma unescape_safeCode: "unescape (safeCode s) = s"
  by (induction s) (simp_all add: safeCode_Nil safeCode_Cons unescape_escape_char)

lemma safeCode_inject: "safeCode s = safeCode t \<Longrightarrow> s = t"
  by (metis unescape_safeCode)

section \<open>Properties of the grouping\<close>

lemma first_occurrences_set: "set (first_occurrences xs) = set xs"
  by (induction xs) auto

lemma first_occurrences_distinct: "distinct (first_occurrences xs)"
  by (induction xs) (auto simp: distinct_removeAll)

lemma first_occurrences_snoc:
  "first_occurrences (xs @ [y]) =
     (if y \<in> set xs then first_occurrences xs else first_occurrences xs @ [y])"
  by (induction xs) (auto simp: first_occurrences_set)

text \<open>\<open>first_occurrences\<close> keeps exactly the positions whose element has not
  occurred before, in their order.\<close>

lemma first_occurrences_positions:
  "first_occurrences xs =
     map (\<lambda>i. xs ! i) (filter (\<lambda>i. xs ! i \<notin> set (take i xs)) [0..<length xs])"
proof (induction xs rule: rev_induct)
  case Nil
  then show ?case by simp
next
  case (snoc y xs)
  have old: "filter (\<lambda>i. (xs @ [y]) ! i \<notin> set (take i (xs @ [y]))) [0..<length xs]
      = filter (\<lambda>i. xs ! i \<notin> set (take i xs)) [0..<length xs]"
    by (rule filter_cong) (simp_all add: nth_append)
  have same: "map (\<lambda>i. (xs @ [y]) ! i) (filter (\<lambda>i. xs ! i \<notin> set (take i xs)) [0..<length xs])
      = map (\<lambda>i. xs ! i) (filter (\<lambda>i. xs ! i \<notin> set (take i xs)) [0..<length xs])"
    by (rule map_cong) (simp_all add: nth_append)
  show ?case
    using snoc.IH old same by (simp add: first_occurrences_snoc)
qed

lemma map_of_keyed: "map_of (map (\<lambda>g. (g, f g)) ks) k = (if k \<in> set ks then Some (f k) else None)"
  by (induction ks) auto

lemma Map_set_new: "map_of m k = None \<Longrightarrow> Map_set k v m = m @ [(k, v)]"
  by (induction m) (auto split: if_splits)

lemma Map_set_last: "map_of m k = None \<Longrightarrow> Map_set k v (m @ [(k, u)]) = m @ [(k, v)]"
  by (induction m) (auto split: if_splits)

lemma map_of_last: "map_of m k = None \<Longrightarrow> map_of (m @ [(k, u)]) k = Some u"
  by (induction m) (auto split: if_splits)

lemma Map_set_old: "k \<in> set ks \<Longrightarrow> distinct ks \<Longrightarrow>
  Map_set k v (map (\<lambda>g. (g, f g)) ks) = map (\<lambda>g. (g, if g = k then v else f g)) ks"
  by (induction ks) auto

lemma group_step_old:
  assumes "group_d y \<in> set (map group_d xs)"
  shows "group_step (grouping_spec xs) y = grouping_spec (xs @ [y])"
  using assms
  by (simp add: group_step_def grouping_spec_def get_push_def Map_has_def Map_get_def
      map_of_keyed first_occurrences_set first_occurrences_snoc Map_set_old
      first_occurrences_distinct)

lemma group_step_new:
  assumes new: "group_d y \<notin> set (map group_d xs)"
  shows "group_step (grouping_spec xs) y = grouping_spec (xs @ [y])"
proof -
  let ?ks = "first_occurrences (map group_d xs)"
  let ?m = "grouping_spec xs"
  have absent: "map_of ?m (group_d y) = None"
    using new by (simp add: grouping_spec_def map_of_keyed first_occurrences_set)
  have "group_step ?m y = get_push (group_d y) y (?m @ [(group_d y, [])])"
    using absent by (simp add: group_step_def Map_has_def Map_set_new)
  also have "\<dots> = ?m @ [(group_d y, [y])]"
    using absent by (simp add: get_push_def Map_get_def map_of_last Map_set_last del: map_of_append)
  also have "\<dots> = grouping_spec (xs @ [y])"
  proof -
    have none: "filter (\<lambda>d. group_d d = group_d y) xs = []"
      using new by (induction xs) auto
    have same: "map (\<lambda>g. (g, filter (\<lambda>d. group_d d = g) (xs @ [y]))) ?ks
        = map (\<lambda>g. (g, filter (\<lambda>d. group_d d = g) xs)) ?ks"
      using new by (auto simp: first_occurrences_set image_iff)
    show ?thesis
      using new same none by (simp add: grouping_spec_def first_occurrences_snoc)
  qed
  finally show ?thesis .
qed

lemma group_step_spec: "group_step (grouping_spec xs) y = grouping_spec (xs @ [y])"
  using group_step_old group_step_new by blast

lemma foldl_group_step: "foldl group_step (grouping_spec xs) ys = grouping_spec (xs @ ys)"
  by (induction ys arbitrary: xs) (simp_all add: group_step_spec)

lemma groups_grouping_spec: "groups items = grouping_spec items"
  using foldl_group_step [of "[]" items] by (simp add: groups_def grouping_spec_def)

lemma Map_set_mset: "map_of m k = Some ds \<Longrightarrow>
  mset (concat (map snd (Map_set k (ds @ [d]) m))) = mset (concat (map snd m)) + {#d#}"
  by (induction m) (auto split: if_splits)

lemma get_push_mset: "map_of m k \<noteq> None \<Longrightarrow>
  mset (concat (map snd (get_push k d m))) = mset (concat (map snd m)) + {#d#}"
  by (auto simp: get_push_def Map_get_def Map_set_mset)

lemma map_of_Map_set: "map_of (Map_set k v m) = (map_of m)(k \<mapsto> v)"
  by (induction m) (auto simp: fun_eq_iff)

lemma Map_set_Nil_mset: "map_of m k = None \<Longrightarrow> mset (concat (map snd (Map_set k [] m))) = mset (concat (map snd m))"
  by (simp add: Map_set_new)

lemma group_step_mset:
  "mset (concat (map snd (group_step m y))) = mset (concat (map snd m)) + {#y#}"
  by (simp add: group_step_def Map_has_def get_push_mset map_of_Map_set Map_set_Nil_mset)

lemma foldl_group_step_mset:
  "mset (concat (map snd (foldl group_step m ys))) = mset (concat (map snd m)) + mset ys"
  by (induction ys arbitrary: m) (simp_all add: group_step_mset)

lemma groups_mset: "mset (concat (map snd (groups items))) = mset items"
  by (simp add: groups_def foldl_group_step_mset)

lemma groups_keys_distinct: "distinct (map fst (groups items))"
  by (simp add: groups_grouping_spec grouping_spec_def comp_def first_occurrences_distinct)

lemma groups_member: "(g, ds) \<in> set (groups items) \<Longrightarrow> ds = filter (\<lambda>d. group_d d = g) items \<and> ds \<noteq> []"
  by (auto simp: groups_grouping_spec grouping_spec_def first_occurrences_set filter_empty_conv)

lemma groups_distinct: "distinct items \<Longrightarrow> distinct (concat (map snd (groups items)))"
  by (metis groups_mset mset_eq_imp_distinct_iff)

lemma groups_three:
  assumes "group_d A = G1" "group_d B = G1" "group_d C = G2" "G1 \<noteq> G2"
  shows "groups [A, B, C] = [(G1, [A, B]), (G2, [C])]"
  using assms by (simp add: groups_def group_step_def get_push_def Map_has_def Map_get_def)

subsection \<open>The catalog under the grouping\<close>

lemma catalog_groups:
  "group_d OTO0 = ''Otomato Platform''" "group_d OTO1 = ''Otomato Platform''"
  "group_d OTO2 = ''Otomato Platform''" "group_d OTO3 = ''Strategy & Growth''"
  "group_d OTO4 = ''Strategy & Growth''"
  by (simp_all add: OTO0_def OTO1_def OTO2_def OTO3_def OTO4_def)

lemma catalog_ids:
  "id_d OTO0 = ''OTO0''" "id_d OTO1 = ''OTO1''" "id_d OTO2 = ''OTO2''"
  "id_d OTO3 = ''OTO3''" "id_d OTO4 = ''OTO4''"
  by (simp_all add: OTO0_def OTO1_def OTO2_def OTO3_def OTO4_def)

lemma catalog_ids_distinct: "distinct (map id_d diagrams)"
  by (simp add: diagrams_def catalog_ids)

lemma catalog_distinct: "distinct diagrams"
  using catalog_ids_distinct by (simp only: distinct_map)

lemma groups_diagrams:
  "groups diagrams =
     [(''Otomato Platform'', [OTO0, OTO1, OTO2]), (''Strategy & Growth'', [OTO3, OTO4])]"
  by (simp add: groups_grouping_spec grouping_spec_def diagrams_def catalog_groups)

text \<open>
  Claim C7. For every list of diagrams, the grouping computed by the sidebar is the one
  the specification describes: the group labels in the order of their first occurrence
  in the list, each with the entries that carry it, in the order of the list. In
  particular, three entries \<open>A\<close>, \<open>B\<close>, \<open>C\<close> with labels \<open>G1\<close>, \<open>G1\<close>, \<open>G2\<close> give
  exactly the two groups \<open>G1\<close> with \<open>[A, B]\<close> and then \<open>G2\<close> with \<open>[C]\<close>.
\<close>

theorem groups_first_occurrence_order:
  "groups items = grouping_spec items \<and>
   (group_d A = G1 \<and> group_d B = G1 \<and> group_d C = G2 \<and> G1 \<noteq> G2 \<longrightarrow>
      groups [A, B, C] = [(G1, [A, B]), (G2, [C])])"
  using groups_grouping_spec groups_three by blast

theorem groups_first_occurrence_order_witness:
  "groups diagrams =
     [(''Otomato Platform'', [OTO0, OTO1, OTO2]), (''Strategy & Growth'', [OTO3, OTO4])] \<and>
   group_d OTO0 = ''Otomato Platform'' \<and> group_d OTO1 = ''Otomato Platform'' \<and>
   group_d OTO3 = ''Strategy & Growth'' \<and> ''Otomato Platform'' \<noteq> ''Strategy & Growth'' \<and>
   groups [OTO0, OTO1, OTO3] =
     [(''Otomato Platform'', [OTO0, OTO1]), (''Strategy & Growth'', [OTO3])]"
  using groups_first_occurrence_order
    [of diagrams OTO0 "''Otomato Platform''" OTO1 OTO3 "''Strategy & Growth''"]
  by (simp add: grouping_spec_def diagrams_def catalog_groups)

text \<open>
  Claim C9. For every list of diagrams the grouping is a partition of it: the members
  of all groups together are the entries of the list, each as often as the list has it;
  no label heads two groups; a group is not empty and holds exactly the entries of the
  list whose own label is the group's key; every entry of the list is found under its
  own label, as often as in the list; and a list without repetitions gives groups
  without repetitions, within and across.
\<close>

theorem groups_partition:
  "mset (concat (map snd (groups items))) = mset items \<and>
   distinct (map fst (groups items)) \<and>
   ((g, ds) \<in> set (groups items) \<longrightarrow>
      ds \<noteq> [] \<and> (\<forall>d. d \<in> set ds \<longleftrightarrow> d \<in> set items \<and> group_d d = g)) \<and>
   (d \<in> set items \<longrightarrow>
      (\<exists>ds. (group_d d, ds) \<in> set (groups items) \<and>
            count (mset ds) d = count (mset items) d)) \<and>
   (distinct items \<longrightarrow> distinct (concat (map snd (groups items))))"
proof -
  have members: "(g, ds) \<in> set (groups items) \<longrightarrow>
      ds \<noteq> [] \<and> (\<forall>d. d \<in> set ds \<longleftrightarrow> d \<in> set items \<and> group_d d = g)"
    using groups_member [of g ds items] by auto
  have found: "d \<in> set items \<longrightarrow>
      (\<exists>ds. (group_d d, ds) \<in> set (groups items) \<and>
            count (mset ds) d = count (mset items) d)"
  proof
    assume "d \<in> set items"
    then have "(group_d d, filter (\<lambda>x. group_d x = group_d d) items) \<in> set (groups items)"
      by (auto simp: groups_grouping_spec grouping_spec_def first_occurrences_set)
    moreover have
      "count (mset (filter (\<lambda>x. group_d x = group_d d) items)) d = count (mset items) d"
      by simp
    ultimately show "\<exists>ds. (group_d d, ds) \<in> set (groups items) \<and>
        count (mset ds) d = count (mset items) d"
      by blast
  qed
  show ?thesis
    using members found groups_mset groups_keys_distinct groups_distinct by blast
qed

theorem groups_partition_witness:
  "mset (concat (map snd (groups diagrams))) = mset diagrams \<and>
   distinct (map fst (groups diagrams)) \<and>
   (''Strategy & Growth'', [OTO3, OTO4]) \<in> set (groups diagrams) \<and>
   (OTO3 \<in> set [OTO3, OTO4] \<longleftrightarrow>
      OTO3 \<in> set diagrams \<and> group_d OTO3 = ''Strategy & Growth'') \<and>
   OTO3 \<in> set diagrams \<and>
   (\<exists>ds. (group_d OTO3, ds) \<in> set (groups diagrams) \<and>
         count (mset ds) OTO3 = count (mset diagrams) OTO3) \<and>
   distinct diagrams \<and> distinct (concat (map snd (groups diagrams)))"
proof -
  have member: "(''Strategy & Growth'', [OTO3, OTO4]) \<in> set (groups diagrams)"
    by (simp add: groups_diagrams)
  have entry: "OTO3 \<in> set diagrams"
    by (simp add: diagrams_def)
  show ?thesis
    using groups_partition [of diagrams "''Strategy & Growth''" "[OTO3, OTO4]" OTO3]
      member entry catalog_distinct
    by blast
qed

section \<open>Properties of the page\<close>

subsection \<open>The started page and the theme effect\<close>

lemma replace_g_char: "replace_g c [r] s = map (\<lambda>x. if x = c then r else x) s"
  by (induction s) simp_all

lemma diagrams_first: "diagrams ! 0 = OTO0"
  by (simp add: diagrams_def)

lemma renderer_update_same: "renderer_update c c w = w"
  by (simp add: renderer_update_def)

lemma theme_effect_eq: "theme_effect w = w\<lparr>mermaid_theme := Some (if dark w then ''dark'' else ''default'')\<rparr>"
  by (simp add: theme_effect_def initMermaid_def setSelected_def renderer_update_def)

lemma toggleTheme_eq:
  "toggleTheme w = w\<lparr>dark := \<not> dark w, mermaid_theme := Some (if dark w then ''default'' else ''dark'')\<rparr>"
  by (simp add: toggleTheme_def renderer_update_same theme_effect_eq)

lemma started_eq:
  "started =
     \<lparr>selected = OTO0, svg = [], dark = False, copyStatus = ''Copy Mermaid'',
      ref = Some spinner, renders = [0 \<mapsto> \<lparr>r_code = code OTO0, active = True\<rparr>],
      runs = Suc 0, cur = Some 0, mermaid_theme = Some ''default'',
      render_calls = [(code OTO0, None)], onRender_calls = [], downloads = [], clipboard = [],
      console = [], timers = [], now = 0\<rparr>"
  by (simp add: started_def mount_def initial_def diagrams_first renderer_effect_def theme_effect_eq)

lemma code_OTO1_OTO0: "code OTO1 \<noteq> code OTO0"
  by (simp add: OTO0_def OTO1_def)

subsection \<open>Escaping and the error panel\<close>

lemma prefix_before_first:
  "c \<notin> set a \<Longrightarrow> takeWhile (\<lambda>z. z \<noteq> c) (a @ c # x) = a"
  by (induction a) auto

lemma error_panel_inject:
  assumes "error_panel e s = error_panel e' t"
  shows "s = t"
proof -
  have "rev (e @ panel_mid @ safeCode s) = rev (e' @ panel_mid @ safeCode t)"
    using assms by (simp add: error_panel_def)
  then have eq: "rev (safeCode s) @ CHR ''>'' # (rev (butlast panel_mid) @ rev e)
           = rev (safeCode t) @ CHR ''>'' # (rev (butlast panel_mid) @ rev e')"
    by (simp add: panel_mid_def)
  have no_s: "CHR ''>'' \<notin> set (rev (safeCode s))"
    using safeCode_no_angle by simp
  have no_t: "CHR ''>'' \<notin> set (rev (safeCode t))"
    using safeCode_no_angle by simp
  have "rev (safeCode s) = rev (safeCode t)"
    using arg_cong [OF eq, of "takeWhile (\<lambda>z. z \<noteq> CHR ''>'')"]
    by (simp only: prefix_before_first [OF no_s] prefix_before_first [OF no_t])
  then show ?thesis
    using safeCode_inject by simp
qed

text \<open>
  Claim C10. The escaping of the error panel replaces \<^verbatim>\<open>&\<close> first, then \<^verbatim>\<open><\<close>, then
  \<^verbatim>\<open>>\<close>; it agrees with the character-wise escaping of the specification; for every
  input the escaped text contains neither \<^verbatim>\<open><\<close> nor \<^verbatim>\<open>>\<close>; and it is injective:
  two texts with the same escaped form are equal, a decoder gives the source back, and
  even two whole panels (whatever the error messages) are equal only for the same source.
\<close>

theorem safeCode_injective:
  "safeCode s = replace_g (CHR ''>'') ''&gt;'' (replace_g (CHR ''<'') ''&lt;'' (replace_g (CHR ''&'') ''&amp;'' s)) \<and>
   safeCode s = escape_spec s \<and>
   CHR ''<'' \<notin> set (safeCode s) \<and> CHR ''>'' \<notin> set (safeCode s) \<and>
   (safeCode s = safeCode t \<longrightarrow> s = t) \<and>
   unescape (safeCode s) = s \<and>
   (error_panel e s = error_panel e' t \<longrightarrow> s = t)"
proof -
  have order: "safeCode s = replace_g (CHR ''>'') ''&gt;'' (replace_g (CHR ''<'') ''&lt;'' (replace_g (CHR ''&'') ''&amp;'' s))"
    by (simp add: safeCode_def)
  show ?thesis
    using order safeCode_escape_spec [of s] safeCode_no_angle [of s] safeCode_inject [of s t]
      unescape_safeCode [of s] error_panel_inject [of e s e' t]
    by blast
qed

theorem safeCode_injective_witness:
  "safeCode ''a<b && c>d'' = ''a&lt;b &amp;&amp; c&gt;d'' \<and>
   CHR ''<'' \<notin> set (safeCode ''a<b && c>d'') \<and> CHR ''>'' \<notin> set (safeCode ''a<b && c>d'') \<and>
   safeCode ''a<b && c>d'' = safeCode ''a<b && c>d'' \<and>
   unescape ''a&lt;b &amp;&amp; c&gt;d'' = ''a<b && c>d'' \<and>
   error_panel ''E'' ''a<b && c>d'' = error_panel ''E'' ''a<b && c>d''"
  using safeCode_injective [of "''a<b && c>d''" "''a<b && c>d''" "''E''" "''E''"]
  by (simp add: escape_spec_def escape_char_spec_def)

subsection \<open>Export\<close>

text \<open>
  Claim C6. Whenever export is possible (the stored artifact is not empty), the export
  button hands the browser one file: its name is the title of the selected diagram with
  every space replaced by an underscore, followed by \<^verbatim>\<open>.svg\<close>; its content is the
  stored artifact; its type is \<^verbatim>\<open>image/svg+xml\<close>.
\<close>

theorem export_file:
  "svg w \<noteq> [] \<longrightarrow>
     downloads (exportClick w) = downloads w @
       [\<lparr>filename = map (\<lambda>x. if x = CHR '' '' then CHR ''_'' else x) (title (selected w)) @ ''.svg'',
         content = svg w, mime_type = ''image/svg+xml''\<rparr>]"
  by (simp add: exportClick_def download_def replace_g_char)

lemma title_OTO0: "title OTO0 = ''System Overview (Use-Case)''"
  by (simp add: OTO0_def)

lemma resolved_started:
  "resolve 0 v started =
     \<lparr>selected = OTO0, svg = v, dark = False, copyStatus = ''Copy Mermaid'',
      ref = Some v, renders = Map.empty,
      runs = Suc 0, cur = Some 0, mermaid_theme = Some ''default'',
      render_calls = [(code OTO0, None)], onRender_calls = [v], downloads = [], clipboard = [],
      console = [], timers = [], now = 0\<rparr>"
  by (simp add: started_eq resolve_def onRender_def)

theorem export_file_witness:
  "svg (resolve 0 ''<svg/>'' started) \<noteq> [] \<and>
   downloads (exportClick (resolve 0 ''<svg/>'' started)) =
     [\<lparr>filename = ''System_Overview_(Use-Case).svg'', content = ''<svg/>'', mime_type = ''image/svg+xml''\<rparr>]"
  using export_file [of "resolve 0 ''<svg/>'' started"]
  by (simp add: resolved_started title_OTO0)

subsection \<open>Rejected renders\<close>

lemma reject_pending:
  "renders w t = Some r \<Longrightarrow> ref w = Some old \<Longrightarrow>
   reject t e w = w\<lparr>renders := (renders w)(t := None), ref := Some (error_panel e (r_code r))\<rparr>"
  by (simp add: reject_def)

lemma setSelected_new_code:
  "ref w = Some old \<Longrightarrow> code d \<noteq> code (selected w) \<Longrightarrow>
   renders (setSelected d w) (runs w) = Some \<lparr>r_code = code d, active = True\<rparr> \<and>
   ref (setSelected d w) = Some spinner \<and>
   svg (setSelected d w) = svg w \<and>
   onRender_calls (setSelected d w) = onRender_calls w \<and>
   render_calls (setSelected d w) = render_calls w @ [(code d, mermaid_theme w)]"
  by (simp add: setSelected_def renderer_update_def renderer_effect_def renderer_cleanup_def
      split: option.splits)

text \<open>
  Claim C2. When the engine rejects the render of a source text while the view is
  mounted, the view shows the error panel: the fixed head, the engine's message, the
  fixed middle part, the source text with every \<^verbatim>\<open>&\<close>, \<^verbatim>\<open><\<close>, \<^verbatim>\<open>>\<close> escaped, and
  the fixed tail; the callback \<^verbatim>\<open>onRender\<close> is not called and the stored artifact is
  what it was. This holds for any outstanding render, and in particular for the one
  that selecting a diagram with another source text has just issued.
\<close>

theorem rejected_render_shows_error_panel:
  "(renders w t = Some r \<and> ref w \<noteq> None \<longrightarrow>
      ref (reject t e w) = Some (panel_head @ e @ panel_mid @ escape_spec (r_code r) @ panel_tail) \<and>
      svg (reject t e w) = svg w \<and>
      onRender_calls (reject t e w) = onRender_calls w) \<and>
   (ref w \<noteq> None \<and> code d \<noteq> code (selected w) \<longrightarrow>
      ref (reject (runs w) e (setSelected d w)) =
        Some (panel_head @ e @ panel_mid @ escape_spec (code d) @ panel_tail) \<and>
      svg (reject (runs w) e (setSelected d w)) = svg w \<and>
      onRender_calls (reject (runs w) e (setSelected d w)) = onRender_calls w)"
proof -
  have one: "renders w t = Some r \<and> ref w \<noteq> None \<longrightarrow>
      ref (reject t e w) = Some (panel_head @ e @ panel_mid @ escape_spec (r_code r) @ panel_tail) \<and>
      svg (reject t e w) = svg w \<and>
      onRender_calls (reject t e w) = onRender_calls w" for w t r
    by (auto simp: reject_pending error_panel_def safeCode_escape_spec)
  have two: "ref w \<noteq> None \<and> code d \<noteq> code (selected w) \<longrightarrow>
      ref (reject (runs w) e (setSelected d w)) =
        Some (panel_head @ e @ panel_mid @ escape_spec (code d) @ panel_tail) \<and>
      svg (reject (runs w) e (setSelected d w)) = svg w \<and>
      onRender_calls (reject (runs w) e (setSelected d w)) = onRender_calls w"
  proof
    assume h: "ref w \<noteq> None \<and> code d \<noteq> code (selected w)"
    then obtain old where old: "ref w = Some old" by auto
    from setSelected_new_code [OF old] h
    have s: "renders (setSelected d w) (runs w) = Some \<lparr>r_code = code d, active = True\<rparr>"
      "ref (setSelected d w) = Some spinner" "svg (setSelected d w) = svg w"
      "onRender_calls (setSelected d w) = onRender_calls w"
      by simp_all
    show "ref (reject (runs w) e (setSelected d w)) =
        Some (panel_head @ e @ panel_mid @ escape_spec (code d) @ panel_tail) \<and>
      svg (reject (runs w) e (setSelected d w)) = svg w \<and>
      onRender_calls (reject (runs w) e (setSelected d w)) = onRender_calls w"
      using one [of "setSelected d w" "runs w" "\<lparr>r_code = code d, active = True\<rparr>"] s by simp
  qed
  show ?thesis using one [of w t r] two by blast
qed

theorem rejected_render_shows_error_panel_witness:
  "renders started 0 = Some \<lparr>r_code = code OTO0, active = True\<rparr> \<and> ref started \<noteq> None \<and>
   ref (reject 0 ''Parse error'' started) =
     Some (panel_head @ ''Parse error'' @ panel_mid @ escape_spec (code OTO0) @ panel_tail) \<and>
   svg (reject 0 ''Parse error'' started) = svg started \<and>
   onRender_calls (reject 0 ''Parse error'' started) = onRender_calls started \<and>
   code OTO1 \<noteq> code (selected started) \<and>
   ref (reject (runs started) ''Parse error'' (setSelected OTO1 started)) =
     Some (panel_head @ ''Parse error'' @ panel_mid @ escape_spec (code OTO1) @ panel_tail) \<and>
   svg (reject (runs started) ''Parse error'' (setSelected OTO1 started)) = svg started \<and>
   onRender_calls (reject (runs started) ''Parse error'' (setSelected OTO1 started)) = onRender_calls started"
proof -
  have a: "renders started 0 = Some \<lparr>r_code = code OTO0, active = True\<rparr>" "ref started \<noteq> None"
    "code OTO1 \<noteq> code (selected started)"
    by (simp_all add: started_eq code_OTO1_OTO0)
  show ?thesis
    using rejected_render_shows_error_panel [of started 0 "\<lparr>r_code = code OTO0, active = True\<rparr>" "''Parse error''" OTO1] a
    by simp
qed

subsection \<open>What each event leaves alone\<close>

lemma renderer_update_keeps:
  "svg (renderer_update a b w) = svg w"
  "downloads (renderer_update a b w) = downloads w"
  "copyStatus (renderer_update a b w) = copyStatus w"
  "selected (renderer_update a b w) = selected w"
  by (simp_all add: renderer_update_def renderer_effect_def renderer_cleanup_def split: option.splits)

lemma setSelected_keeps:
  "svg (setSelected d w) = svg w"
  "downloads (setSelected d w) = downloads w"
  "copyStatus (setSelected d w) = copyStatus w"
  by (simp_all add: setSelected_def renderer_update_keeps)

lemma handleCopy_keeps:
  "svg (handleCopy res w) = svg w"
  "downloads (handleCopy res w) = downloads w"
  by (simp_all add: handleCopy_def copy_def split: clipboard_result.splits)

lemma advance_keeps:
  "svg (advance dt w) = svg w"
  "downloads (advance dt w) = downloads w"
  by (simp_all add: advance_def Let_def)

lemma unmount_keeps:
  "svg (unmount w) = svg w"
  "downloads (unmount w) = downloads w"
  "copyStatus (unmount w) = copyStatus w"
  by (simp_all add: unmount_def renderer_cleanup_def split: option.splits)

lemma reject_keeps:
  "svg (reject t e w) = svg w"
  "downloads (reject t e w) = downloads w"
  "copyStatus (reject t e w) = copyStatus w"
  "onRender_calls (reject t e w) = onRender_calls w"
  by (simp_all add: reject_def Let_def split: option.splits)

lemma resolve_keeps:
  "downloads (resolve t v w) = downloads w"
  "copyStatus (resolve t v w) = copyStatus w"
  by (simp_all add: resolve_def onRender_def Let_def split: option.splits)

lemma resolve_svg: "svg (resolve t v w) = svg w \<or> svg (resolve t v w) = v"
  by (simp add: resolve_def onRender_def Let_def split: option.splits)

lemma exportClick_keeps:
  "svg (exportClick w) = svg w"
  "copyStatus (exportClick w) = copyStatus w"
  by (simp_all add: exportClick_def download_def)

lemma exportClick_empty: "svg w = [] \<Longrightarrow> exportClick w = w"
  by (simp add: exportClick_def)

lemma step_svg: "svg (step w e) = svg w \<or> (\<exists>t v. e = Resolve t v \<and> svg (step w e) = v)"
  using resolve_svg
  by (cases e) (simp_all add: setSelected_keeps toggleTheme_eq handleCopy_keeps exportClick_keeps
      reject_keeps advance_keeps unmount_keeps)

lemma step_svg_nonempty:
  assumes "svg (step w e) \<noteq> []"
  shows "svg w \<noteq> [] \<or> (\<exists>t v. e = Resolve t v \<and> v \<noteq> [])"
proof -
  from step_svg [of w e] show ?thesis
  proof
    assume "svg (step w e) = svg w"
    with assms show ?thesis by simp
  next
    assume "\<exists>t v. e = Resolve t v \<and> svg (step w e) = v"
    then obtain t v where "e = Resolve t v" "svg (step w e) = v" by blast
    with assms have "e = Resolve t v \<and> v \<noteq> []" by simp
    then show ?thesis by blast
  qed
qed

lemma exportClick_downloads: "downloads (exportClick w) = downloads w \<or> svg w \<noteq> []"
  by (simp add: exportClick_def)

lemma step_downloads: "downloads (step w e) = downloads w \<or> svg w \<noteq> []"
  using exportClick_downloads [of w]
  by (cases e) (simp_all add: setSelected_keeps toggleTheme_eq handleCopy_keeps
      reject_keeps resolve_keeps advance_keeps unmount_keeps)

lemma run_Cons: "run (e # es) w = run es (step w e)"
  by (simp add: run_def)

lemma run_svg:
  "svg (run es w) \<noteq> [] \<Longrightarrow> svg w \<noteq> [] \<or> (\<exists>t v. Resolve t v \<in> set es \<and> v \<noteq> [])"
proof (induction es arbitrary: w)
  case Nil
  then show ?case by (simp add: run_def)
next
  case (Cons e es)
  from Cons.IH [of "step w e"] Cons.prems
  have "svg (step w e) \<noteq> [] \<or> (\<exists>t v. Resolve t v \<in> set es \<and> v \<noteq> [])"
    by (simp add: run_Cons)
  then show ?case
  proof
    assume "svg (step w e) \<noteq> []"
    then have "svg w \<noteq> [] \<or> (\<exists>t v. e = Resolve t v \<and> v \<noteq> [])"
      by (rule step_svg_nonempty)
    then show ?thesis by auto
  next
    assume "\<exists>t v. Resolve t v \<in> set es \<and> v \<noteq> []"
    then show ?thesis by auto
  qed
qed

lemma run_downloads:
  "downloads (run es w) \<noteq> [] \<Longrightarrow>
     downloads w \<noteq> [] \<or> svg w \<noteq> [] \<or> (\<exists>t v. Resolve t v \<in> set es \<and> v \<noteq> [])"
proof (induction es arbitrary: w)
  case Nil
  then show ?case by (simp add: run_def)
next
  case (Cons e es)
  from Cons.IH [of "step w e"] Cons.prems
  have "downloads (step w e) \<noteq> [] \<or> svg (step w e) \<noteq> [] \<or>
      (\<exists>t v. Resolve t v \<in> set es \<and> v \<noteq> [])"
    by (simp add: run_Cons)
  moreover have "downloads (step w e) \<noteq> [] \<Longrightarrow> downloads w \<noteq> [] \<or> svg w \<noteq> []"
    using step_downloads [of w e] by auto
  moreover have "svg (step w e) \<noteq> [] \<Longrightarrow>
      svg w \<noteq> [] \<or> (\<exists>t v. e = Resolve t v \<and> v \<noteq> [])"
    by (rule step_svg_nonempty)
  ultimately show ?case by auto
qed

text \<open>
  Claim C5. While the stored artifact is the empty string, a click on the export
  button changes nothing (no download). The page starts with the first entry of the
  catalog selected and an empty artifact, so export is disabled then. Whatever
  happens to the page afterwards, the artifact is non-empty, or a download has taken
  place, only if the engine resolved some render with a non-empty result.
\<close>

theorem export_disabled_without_artifact:
  "(svg w = [] \<longrightarrow> step w ExportClick = w) \<and>
   selected started = diagrams ! 0 \<and> diagrams ! 0 = hd diagrams \<and> svg started = [] \<and>
   step started ExportClick = started \<and>
   (svg (run es started) \<noteq> [] \<longrightarrow> (\<exists>t v. Resolve t v \<in> set es \<and> v \<noteq> [])) \<and>
   (downloads (run es started) \<noteq> [] \<longrightarrow> (\<exists>t v. Resolve t v \<in> set es \<and> v \<noteq> []))"
proof -
  have a: "svg w = [] \<longrightarrow> step w ExportClick = w"
    by (simp add: exportClick_empty)
  have b: "selected started = diagrams ! 0" "diagrams ! 0 = hd diagrams" "svg started = []"
    "downloads started = []"
    by (simp_all add: started_eq diagrams_first) (simp add: diagrams_def)
  have c: "step started ExportClick = started"
    using b by (simp add: exportClick_empty)
  show ?thesis
    using a b c run_svg [of es started] run_downloads [of es started] by simp
qed

lemma started_mounted: "ref started = Some spinner"
  by (simp add: started_eq)

lemma started_no_svg: "svg started = []"
  by (simp add: started_eq)

theorem export_disabled_without_artifact_witness:
  "svg started = [] \<and> step started ExportClick = started \<and>
   svg (run [ExportClick, Resolve 0 ''<svg/>'', ExportClick] started) \<noteq> [] \<and>
   downloads (run [ExportClick, Resolve 0 ''<svg/>'', ExportClick] started) \<noteq> [] \<and>
   (\<exists>t v. Resolve t v \<in> set [ExportClick, Resolve 0 ''<svg/>'', ExportClick] \<and> v \<noteq> [])"
proof -
  have "run [ExportClick, Resolve 0 ''<svg/>'', ExportClick] started
      = step (resolve 0 ''<svg/>'' started) ExportClick"
    by (simp add: run_def started_mounted started_no_svg exportClick_empty)
  then have "svg (run [ExportClick, Resolve 0 ''<svg/>'', ExportClick] started) \<noteq> []"
    "downloads (run [ExportClick, Resolve 0 ''<svg/>'', ExportClick] started) \<noteq> []"
    by (simp_all add: resolved_started exportClick_def download_def)
  then show ?thesis
    using export_disabled_without_artifact
      [of started "[ExportClick, Resolve 0 ''<svg/>'', ExportClick]"]
    by simp
qed

subsection \<open>The copy label\<close>

lemma handleCopy_Written:
  "handleCopy Written w =
     w\<lparr>clipboard := code (selected w), copyStatus := ''Copied!'', timers := timers w @ [now w + 2000]\<rparr>"
  by (simp add: handleCopy_def copy_def)

lemma handleCopy_Rejected: "handleCopy (Rejected e) w = w\<lparr>console := console w @ [e]\<rparr>"
  by (simp add: handleCopy_def copy_def)

lemma advance_label:
  "copyStatus (advance dt w) =
     (if filter (\<lambda>due. due \<le> now w + dt) (timers w) = [] then copyStatus w else ''Copy Mermaid'')"
  by (simp add: advance_def Let_def)

lemma step_label:
  "copyStatus (step w e) = copyStatus w \<or> copyStatus (step w e) = ''Copied!'' \<or>
   copyStatus (step w e) = ''Copy Mermaid''"
  by (cases e) (simp_all add: setSelected_keeps toggleTheme_eq handleCopy_def copy_def
      exportClick_keeps reject_keeps resolve_keeps advance_label unmount_keeps
      split: clipboard_result.splits)

lemma run_snoc: "run (es @ [e]) w = step (run es w) e"
  by (simp add: run_def)

lemma run_label:
  "copyStatus (run es started) = ''Copy Mermaid'' \<or> copyStatus (run es started) = ''Copied!''"
proof (induction es rule: rev_induct)
  case Nil
  then show ?case by (simp add: run_def started_eq)
next
  case (snoc e es)
  then show ?case
    using step_label [of "run es started" e] by (auto simp: run_snoc)
qed

text \<open>
  Claim C8, as the code has it. A successful copy puts the source of the selected
  diagram on the clipboard, sets the label to \<^verbatim>\<open>Copied!\<close> and adds a timer due 2000 ms
  later; a failed copy logs the error and leaves label and timers alone. With no other
  timer pending, the label is \<^verbatim>\<open>Copied!\<close> for less than 2000 ms and the default from
  2000 ms on. A second successful copy within the 2000 ms clears nothing: the label
  goes back to the default 2000 ms after the first copy. The label is never anything
  but the default or \<^verbatim>\<open>Copied!\<close>.
\<close>

theorem copy_label_timers:
  "copyStatus (handleCopy Written w) = ''Copied!'' \<and>
   clipboard (handleCopy Written w) = code (selected w) \<and>
   timers (handleCopy Written w) = timers w @ [now w + 2000] \<and>
   copyStatus (handleCopy (Rejected e) w) = copyStatus w \<and>
   timers (handleCopy (Rejected e) w) = timers w \<and>
   console (handleCopy (Rejected e) w) = console w @ [e] \<and>
   (timers w = [] \<longrightarrow>
      copyStatus (advance dt (handleCopy Written w)) =
        (if dt < 2000 then ''Copied!'' else ''Copy Mermaid'')) \<and>
   (timers w = [] \<and> d1 < 2000 \<longrightarrow>
      copyStatus (advance d2 (handleCopy Written (advance d1 (handleCopy Written w)))) =
        (if d1 + d2 < 2000 then ''Copied!'' else ''Copy Mermaid'')) \<and>
   (copyStatus (run es started) = ''Copy Mermaid'' \<or> copyStatus (run es started) = ''Copied!'')"
proof -
  have one: "timers w = [] \<longrightarrow>
      copyStatus (advance dt (handleCopy Written w)) =
        (if dt < 2000 then ''Copied!'' else ''Copy Mermaid'')"
    by (simp add: handleCopy_Written advance_def Let_def)
  have two: "timers w = [] \<and> d1 < 2000 \<longrightarrow>
      copyStatus (advance d2 (handleCopy Written (advance d1 (handleCopy Written w)))) =
        (if d1 + d2 < 2000 then ''Copied!'' else ''Copy Mermaid'')"
    by (simp add: handleCopy_Written advance_def Let_def)
  show ?thesis
    using one two run_label [of es] by (simp add: handleCopy_Written handleCopy_Rejected)
qed

lemma started_no_timers: "timers started = []"
  by (simp add: started_eq)

theorem copy_label_timers_witness:
  "timers started = [] \<and> (1000::nat) < 2000 \<and>
   copyStatus (advance 1999 (handleCopy Written started)) = ''Copied!'' \<and>
   copyStatus (advance 2000 (handleCopy Written started)) = ''Copy Mermaid'' \<and>
   copyStatus (advance 999 (handleCopy Written (advance 1000 (handleCopy Written started)))) = ''Copied!'' \<and>
   copyStatus (advance 1000 (handleCopy Written (advance 1000 (handleCopy Written started)))) = ''Copy Mermaid''"
  using copy_label_timers [of started "''e''" 1999 1000 999 "[]"]
    copy_label_timers [of started "''e''" 2000 1000 1000 "[]"] started_no_timers
  by simp

text \<open>
  Claim C8 as stated fails: copy, wait one second, copy again, wait one more second.
  A restarted timer would still show \<^verbatim>\<open>Copied!\<close>; the timer of the first copy has
  fired instead.
\<close>

theorem second_copy_does_not_restart_timer:
  "\<not> (copyStatus (run [CopyClick Written, Elapse 1000, CopyClick Written, Elapse 1000] started) = ''Copied!'')"
  by (simp add: run_def started_mounted handleCopy_Written advance_def Let_def started_eq)

subsection \<open>Selecting the active entry\<close>

lemma catalog_id_inject:
  assumes "d \<in> set diagrams" "d' \<in> set diagrams" "id_d d = id_d d'"
  shows "d = d'"
  using assms catalog_ids_distinct by (auto simp: distinct_map inj_on_def)

lemma setSelected_selected: "setSelected (selected w) w = w"
  by (simp add: setSelected_def renderer_update_def)

text \<open>The forced refresh of line 184 is such a re-selection: toggling the theme is
  flipping the flag, configuring the engine, and selecting the active record again.\<close>

lemma toggle_is_reselect:
  "toggleTheme w = setSelected (selected w) (initMermaid (\<not> dark w) (w\<lparr>dark := \<not> dark w\<rparr>))"
  by (simp add: toggleTheme_eq setSelected_def renderer_update_def initMermaid_def)

text \<open>
  Claim C4 on the code. The claim asks that selecting the active diagram again starts
  exactly one new render cycle, and line 184 relies on it to refresh the diagram. The
  code does not do so: selecting the catalog entry whose id is that of the active
  diagram keeps the selection but leaves the whole page as it is, and no render is
  issued, since the source text handed to the renderer has not changed.
\<close>

theorem select_active_is_noop:
  "d \<in> set diagrams \<and> selected w \<in> set diagrams \<and> id_d d = id_d (selected w) \<longrightarrow>
     step w (Select d) = w \<and>
     selected (step w (Select d)) = selected w \<and>
     render_calls (step w (Select d)) = render_calls w"
proof
  assume h: "d \<in> set diagrams \<and> selected w \<in> set diagrams \<and> id_d d = id_d (selected w)"
  then have "d = selected w"
    using catalog_id_inject by blast
  then have "step w (Select d) = w"
    by (simp add: setSelected_selected)
  then show "step w (Select d) = w \<and>
     selected (step w (Select d)) = selected w \<and>
     render_calls (step w (Select d)) = render_calls w"
    by simp
qed

lemma started_selected: "selected started = OTO0"
  by (simp add: started_eq)

theorem select_active_is_noop_witness:
  "OTO0 \<in> set diagrams \<and> selected started \<in> set diagrams \<and> id_d OTO0 = id_d (selected started) \<and>
   step started (Select OTO0) = started \<and>
   render_calls (step started (Select OTO0)) = render_calls started"
proof -
  have "OTO0 \<in> set diagrams"
    by (simp add: diagrams_def)
  then show ?thesis
    using select_active_is_noop [of OTO0 started] by (simp add: started_selected)
qed

text \<open>On the freshly started page, selecting the active entry again does not add a
  render call.\<close>

lemma select_active_no_new_render:
  "id_d OTO0 = id_d (selected started) \<and>
   \<not> (length (render_calls (step started (Select OTO0))) = length (render_calls started) + 1)"
  by (simp add: started_selected started_mounted setSelected_selected [of started, simplified started_selected])

subsection \<open>Liveness of the render closures\<close>

lemma one_liveD: "one_live w \<Longrightarrow> renders w t = Some r \<Longrightarrow> active r \<Longrightarrow> cur w = Some t"
  unfolding one_live_def by blast

lemma one_live_cleanup:
  assumes inv: "one_live w" and r: "renders (renderer_cleanup w) t = Some r"
  shows "\<not> active r"
proof (cases "cur w")
  case None
  then have "renders w t = Some r"
    using r by (simp add: renderer_cleanup_def)
  then show ?thesis
    using one_liveD [OF inv, of t r] None by auto
next
  case (Some c)
  show ?thesis
  proof (cases "renders w c")
    case None
    then have old: "renders w t = Some r"
      using r Some by (simp add: renderer_cleanup_def)
    show ?thesis
      using one_liveD [OF inv old] Some None old by auto
  next
    case (Some rc)
    show ?thesis
    proof (cases "t = c")
      case True
      then have "r = rc\<lparr>active := False\<rparr>"
        using r \<open>cur w = Some c\<close> Some by (simp add: renderer_cleanup_def)
      then show ?thesis by simp
    next
      case False
      then have old: "renders w t = Some r"
        using r \<open>cur w = Some c\<close> Some by (simp add: renderer_cleanup_def)
      show ?thesis
        using one_liveD [OF inv old] \<open>cur w = Some c\<close> False by auto
    qed
  qed
qed

lemma one_live_effect:
  assumes "\<And>t r. renders w t = Some r \<Longrightarrow> \<not> active r"
  shows "one_live (renderer_effect c w)"
proof (cases "ref w")
  case None
  then show ?thesis
    using assms by (simp add: one_live_def renderer_effect_def)
next
  case (Some a)
  then show ?thesis
    using assms by (simp add: one_live_def renderer_effect_def)
qed

lemma one_live_update:
  assumes inv: "one_live w"
  shows "one_live (renderer_update a b w)"
proof (cases "b = a")
  case True
  then show ?thesis
    using inv by (simp add: renderer_update_def)
next
  case False
  have "one_live (renderer_effect b (renderer_cleanup w))"
    by (rule one_live_effect) (rule one_live_cleanup [OF inv])
  then show ?thesis
    using False by (simp add: renderer_update_def)
qed

lemma one_live_selected: "one_live (w\<lparr>selected := d\<rparr>) = one_live w"
  by (simp add: one_live_def)

lemma one_live_drop: "one_live w \<Longrightarrow> one_live (w\<lparr>renders := (renders w)(t := None)\<rparr>)"
  by (simp add: one_live_def)

lemma resolve_renders: "renders (resolve t v w) = (renders w)(t := None)"
  by (cases "renders w t"; cases "ref w")
    (auto simp: resolve_def onRender_def Let_def fun_eq_iff)

lemma resolve_cur: "cur (resolve t v w) = cur w"
  by (cases "renders w t"; cases "ref w") (simp_all add: resolve_def onRender_def Let_def)

lemma reject_renders: "renders (reject t e w) = (renders w)(t := None)"
  by (cases "renders w t"; cases "ref w") (auto simp: reject_def Let_def fun_eq_iff)

lemma reject_cur: "cur (reject t e w) = cur w"
  by (cases "renders w t"; cases "ref w") (simp_all add: reject_def Let_def)

lemma one_live_resolve: "one_live w \<Longrightarrow> one_live (resolve t v w)"
  by (simp add: one_live_def resolve_renders resolve_cur)

lemma one_live_reject: "one_live w \<Longrightarrow> one_live (reject t e w)"
  by (simp add: one_live_def reject_renders reject_cur)

lemma one_live_unmount:
  assumes inv: "one_live w"
  shows "one_live (unmount w)"
proof -
  have "\<not> active r" if "renders (renderer_cleanup w) t = Some r" for t r
    using that by (rule one_live_cleanup [OF inv])
  then show ?thesis
    unfolding one_live_def unmount_def by auto
qed

lemma one_live_handleCopy: "one_live w \<Longrightarrow> one_live (handleCopy res w)"
  by (cases res) (simp_all add: one_live_def handleCopy_def copy_def)

lemma one_live_step: "one_live w \<Longrightarrow> one_live (step w e)"
proof (cases e)
  case (Select d)
  assume "one_live w"
  then show ?thesis
    using Select one_live_update [of "w\<lparr>selected := d\<rparr>"]
    by (simp add: setSelected_def one_live_selected)
next
  case ToggleTheme
  assume "one_live w"
  then show ?thesis
    using ToggleTheme by (simp add: toggleTheme_eq one_live_def)
next
  case (CopyClick res)
  assume "one_live w"
  then show ?thesis
    using CopyClick by (simp add: one_live_handleCopy)
next
  case ExportClick
  assume "one_live w"
  then show ?thesis
    using ExportClick by (simp add: one_live_def exportClick_def download_def)
next
  case (Resolve t v)
  assume "one_live w"
  then show ?thesis
    using Resolve by (simp add: one_live_resolve)
next
  case (Reject t x)
  assume "one_live w"
  then show ?thesis
    using Reject by (simp add: one_live_reject)
next
  case (Elapse dt)
  assume "one_live w"
  then show ?thesis
    using Elapse by (simp add: one_live_def advance_def Let_def)
next
  case Unmount
  assume "one_live w"
  then show ?thesis
    using Unmount by (simp add: one_live_unmount)
qed

lemma one_live_started: "one_live started"
  by (simp add: one_live_def started_eq)

lemma one_live_run: "one_live (run es started)"
  by (induction es rule: rev_induct) (simp_all add: run_def one_live_started one_live_step)

lemma stale_success_discarded:
  assumes "renders (run es started) t = Some r" "cur (run es started) \<noteq> Some t"
  shows "resolve t v (run es started) = (run es started)\<lparr>renders := (renders (run es started))(t := None)\<rparr>"
proof -
  have "\<not> active r"
    using one_liveD [OF one_live_run assms(1)] assms(2) by auto
  then show ?thesis
    using assms(1) by (simp add: resolve_def)
qed

lemma unmounted_failure_dropped:
  "renders w t = Some r \<Longrightarrow> ref w = None \<Longrightarrow>
   reject t e w = w\<lparr>renders := (renders w)(t := None)\<rparr>"
  by (simp add: reject_def)

text \<open>
  Claim C1 at concrete runs. The page starts on the first entry (run 0 is issued);
  the second entry is selected (run 1 is issued, run 0 is stale); run 1 resolves and
  its artifact is shown and stored; then the stale run 0 is rejected. The view now
  shows the error panel of the stale run, for the source of the first entry, although
  the second entry is selected and its artifact is the stored one. And a change of
  theme while run 0 is outstanding does not make it stale: its result is shown and
  stored.
\<close>

theorem stale_failure_overwrites_view:
  "selected (run [Select OTO1, Resolve 1 ''<svg>B</svg>'', Reject 0 ''Error: A''] started) = OTO1 \<and>
   svg (run [Select OTO1, Resolve 1 ''<svg>B</svg>'', Reject 0 ''Error: A''] started) = ''<svg>B</svg>'' \<and>
   ref (run [Select OTO1, Resolve 1 ''<svg>B</svg>''] started) = Some ''<svg>B</svg>'' \<and>
   ref (run [Select OTO1, Resolve 1 ''<svg>B</svg>'', Reject 0 ''Error: A''] started) =
     Some (error_panel ''Error: A'' (code OTO0)) \<and>
   ref (run [ToggleTheme, Resolve 0 ''<svg>A</svg>''] started) = Some ''<svg>A</svg>'' \<and>
   svg (run [ToggleTheme, Resolve 0 ''<svg>A</svg>''] started) = ''<svg>A</svg>''"
  by (simp add: run_def started_eq setSelected_def renderer_update_def renderer_cleanup_def
      renderer_effect_def resolve_def reject_def onRender_def code_OTO1_OTO0 toggleTheme_eq)

subsection \<open>The theme toggle\<close>

text \<open>
  Claim C3 on the code. Toggling the theme flips the flag and configures the engine
  with the new theme, but issues no render: the log of render calls, the outstanding
  renders, the view and the stored artifact are all unchanged. On the freshly started
  page the number of render calls stays what it was.
\<close>

theorem toggleTheme_issues_no_render:
  "dark (toggleTheme w) = (\<not> dark w) \<and>
   mermaid_theme (toggleTheme w) = Some (if dark w then ''default'' else ''dark'') \<and>
   render_calls (toggleTheme w) = render_calls w \<and>
   renders (toggleTheme w) = renders w \<and>
   ref (toggleTheme w) = ref w \<and>
   svg (toggleTheme w) = svg w \<and>
   length (render_calls (step started ToggleTheme)) = length (render_calls started)"
  by (simp add: toggleTheme_eq started_mounted)

end
